theory Spec2Isabelle
  imports Main "HOL-Library.Word"
begin

section \<open>The text export writer of freets_tools\<close>

text \<open>
  A shallow embedding of \<^verbatim>\<open>cmd/freets_tools/internal/format/text/writer.go\<close>.
  Go byte slices are \<open>string\<close> (lists of 8-bit characters), \<open>int64\<close> and \<open>uint64\<close>
  are \<open>64 word\<close>, a Go \<open>error\<close> value is \<open>error option\<close> with \<open>None\<close> for
  \<open>nil\<close>. Every method takes the receiver's state and returns the new one.
\<close>

type_synonym bytes = string

datatype error = ErrShortWrite | ErrIO nat

subsection \<open>The sink: an \<open>io.Writer\<close> behind a \<open>bufio.Writer\<close>\<close>

text \<open>
  The destination \<open>io.Writer\<close> belongs to the caller. It is modelled by the bytes it
  has accepted and by the outcomes of its coming \<open>Write\<close> calls: \<open>Accept\<close> takes the
  whole slice, \<open>Fail k e\<close> takes at most \<open>k\<close> bytes and returns the error \<open>e\<close>. Once
  the list is used up every call accepts. Both outcomes respect the contract of
  \<open>io.Writer\<close> (a short count comes with an error).
\<close>

datatype reply = Accept | Fail nat error

record io_Writer =
  out :: bytes
  replies :: "reply list"

definition io_Write :: "bytes \<Rightarrow> io_Writer \<Rightarrow> nat \<times> error option \<times> io_Writer" where
  "io_Write p u =
     (case replies u of
        [] \<Rightarrow> (length p, None, u\<lparr>out := out u @ p\<rparr>)
      | Accept # rs \<Rightarrow> (length p, None, \<lparr>out = out u @ p, replies = rs\<rparr>)
      | Fail k e # rs \<Rightarrow>
          (min k (length p), Some e, \<lparr>out = out u @ take k p, replies = rs\<rparr>))"

text \<open>
  \<open>bufio.Writer\<close> of the Go standard library: \<open>b_buf\<close> is the filled part
  \<open>b.buf[0:b.n]\<close>, \<open>b_size\<close> is \<open>len(b.buf)\<close> (positive for every writer that
  \<open>bufio.NewWriterSize\<close> makes), \<open>b_err\<close> is the sticky error and \<open>b_wr\<close> the
  destination.
\<close>

record bufio_Writer =
  b_err :: "error option"
  b_buf :: bytes
  b_size :: nat
  b_wr :: io_Writer

definition defaultBufSize :: nat where
  "defaultBufSize = 4096"

definition bufio_NewWriter :: "io_Writer \<Rightarrow> bufio_Writer" where
  "bufio_NewWriter u = \<lparr>b_err = None, b_buf = [], b_size = defaultBufSize, b_wr = u\<rparr>"

definition Available :: "bufio_Writer \<Rightarrow> nat" where
  "Available b = b_size b - length (b_buf b)"

definition Buffered :: "bufio_Writer \<Rightarrow> nat" where
  "Buffered b = length (b_buf b)"

definition Flush :: "bufio_Writer \<Rightarrow> error option \<times> bufio_Writer" where
  "Flush b =
     (if b_err b \<noteq> None then (b_err b, b)
      else if Buffered b = 0 then (None, b)
      else
        (case io_Write (b_buf b) (b_wr b) of (n, e, u) \<Rightarrow>
           let e = (if n < Buffered b \<and> e = None then Some ErrShortWrite else e) in
           if e \<noteq> None
           then (e, b\<lparr>b_buf := drop n (b_buf b), b_err := e, b_wr := u\<rparr>)
           else (None, b\<lparr>b_buf := [], b_wr := u\<rparr>)))"

text \<open>
  The loop of \<open>bufio.Writer.Write\<close>: while the slice does not fit and no error is
  pending, either hand the slice to the destination (empty buffer) or fill the buffer
  and flush it. The result is the rest of the slice, the writer and the count so far.
\<close>

definition Write_step :: "bytes \<Rightarrow> bufio_Writer \<Rightarrow> nat \<Rightarrow> bytes \<times> bufio_Writer \<times> nat" where
  "Write_step p b nn =
     (if Buffered b = 0
      then (case io_Write p (b_wr b) of (n, e, u) \<Rightarrow>
              (drop n p, b\<lparr>b_err := e, b_wr := u\<rparr>, nn + n))
      else (let n = min (Available b) (length p);
                b = b\<lparr>b_buf := b_buf b @ take n p\<rparr>;
                b = snd (Flush b)
            in (drop n p, b, nn + n)))"

definition Write_more :: "bytes \<Rightarrow> bufio_Writer \<Rightarrow> bool" where
  "Write_more p b \<longleftrightarrow> length p > Available b \<and> b_err b = None"

function Write_loop :: "bytes \<Rightarrow> bufio_Writer \<Rightarrow> nat \<Rightarrow> bytes \<times> bufio_Writer \<times> nat" where
  "Write_loop p b nn =
     (if Write_more p b
      then (case Write_step p b nn of (p', b', nn') \<Rightarrow> Write_loop p' b' nn')
      else (p, b, nn))"
  by pat_completeness auto

lemma io_Write_no_error:
  "io_Write p u = (n, None, u') \<Longrightarrow> n = length p"
  by (auto simp: io_Write_def split: list.splits reply.splits)

lemma Flush_error_or_empty:
  "b_err b = None \<Longrightarrow> b_err (snd (Flush b)) \<noteq> None \<or> b_buf (snd (Flush b)) = []"
  by (auto simp: Flush_def Buffered_def Let_def split: prod.splits)

lemma Write_step_decreases:
  assumes "Write_more p b" and "Write_step p b nn = (p', b', nn')"
  shows "(if Write_more p' b' then if Buffered b' = 0 then 1 else 2 else 0)
         < (if Buffered b = 0 then 1 else (2::nat))"
proof (cases "Buffered b = 0")
  case True
  obtain n e u where w: "io_Write p (b_wr b) = (n, e, u)"
    by (cases "io_Write p (b_wr b)") auto
  with True assms(2) have p': "p' = drop n p" and b': "b_err b' = e"
    by (auto simp: Write_step_def)
  have "\<not> Write_more p' b'"
  proof (cases e)
    case None
    with w have "n = length p" by (simp add: io_Write_no_error)
    with p' show ?thesis by (simp add: Write_more_def)
  next
    case (Some x)
    with b' show ?thesis by (simp add: Write_more_def)
  qed
  with True show ?thesis by simp
next
  case False
  define b1 where "b1 = b\<lparr>b_buf := b_buf b @ take (min (Available b) (length p)) p\<rparr>"
  from assms(1) have "b_err b1 = None"
    by (simp add: b1_def Write_more_def)
  then have "b_err (snd (Flush b1)) \<noteq> None \<or> b_buf (snd (Flush b1)) = []"
    by (rule Flush_error_or_empty)
  moreover from False assms(2) have "b' = snd (Flush b1)"
    by (auto simp: Write_step_def Let_def b1_def)
  ultimately have "\<not> Write_more p' b' \<or> Buffered b' = 0"
    by (auto simp: Write_more_def Buffered_def)
  with False show ?thesis by auto
qed

lemma Write_loop_measure:
  "Write_more p b \<Longrightarrow>
   (case Write_step p b nn of (p', b', nn') \<Rightarrow>
      if Write_more p' b' then if Buffered b' = 0 then 1 else 2 else 0)
   < (if Buffered b = 0 then 1 else (2::nat))"
  using Write_step_decreases [of p b nn] by (cases "Write_step p b nn") auto

termination Write_loop
  apply (relation "measure (\<lambda>(p, b, nn).
    if Write_more p b then if Buffered b = 0 then 1 else 2 else 0)")
   apply simp
  subgoal for p b nn
    using Write_loop_measure [of p b nn] by (auto split: prod.splits)
  done

declare Write_loop.simps [simp del]

definition bufio_Write :: "bytes \<Rightarrow> bufio_Writer \<Rightarrow> nat \<times> error option \<times> bufio_Writer" where
  "bufio_Write p b =
     (case Write_loop p b 0 of (p, b, nn) \<Rightarrow>
        if b_err b \<noteq> None then (nn, b_err b, b)
        else (let n = min (Available b) (length p)
              in (nn + n, None, b\<lparr>b_buf := b_buf b @ take n p\<rparr>)))"

definition bufio_WriteByte :: "char \<Rightarrow> bufio_Writer \<Rightarrow> error option \<times> bufio_Writer" where
  "bufio_WriteByte c b =
     (if b_err b \<noteq> None then (b_err b, b)
      else if Available b \<le> 0
      then (case Flush b of (e, b) \<Rightarrow>
              if e \<noteq> None then (b_err b, b)
              else (None, b\<lparr>b_buf := b_buf b @ [c]\<rparr>))
      else (None, b\<lparr>b_buf := b_buf b @ [c]\<rparr>))"

subsection \<open>Number formatting of \<open>strconv\<close>\<close>

text \<open>
  \<open>strconv.AppendInt(dst, i, 10)\<close> and \<open>strconv.AppendUint(dst, u, 10)\<close> append the
  decimal digits of the magnitude, after a minus sign for a negative \<open>int64\<close>. The
  magnitude of a negative \<open>i\<close> is \<open>-uint64(i)\<close>, which is \<open>2 ^ 63\<close> for the least
  \<open>int64\<close>.
\<close>

definition digit :: "nat \<Rightarrow> char" where
  "digit d = char_of (48 + d)"

fun formatBits :: "nat \<Rightarrow> bytes" where
  "formatBits u = (if u < 10 then [digit u] else formatBits (u div 10) @ [digit (u mod 10)])"

declare formatBits.simps [simp del]

definition AppendInt :: "bytes \<Rightarrow> 64 word \<Rightarrow> bytes" where
  "AppendInt dst i =
     (if i <s 0 then dst @ ''-'' @ formatBits (unat (- i)) else dst @ formatBits (unat i))"

definition AppendUint :: "bytes \<Rightarrow> 64 word \<Rightarrow> bytes" where
  "AppendUint dst u = dst @ formatBits (unat u)"

definition AppendBool :: "bytes \<Rightarrow> bool \<Rightarrow> bytes" where
  "AppendBool dst v = (if v then dst @ ''true'' else dst @ ''false'')"

subsection \<open>Helpers of the repository that the writer calls\<close>

text \<open>
  Modelled from the spec: \<open>models.EscapeStringField\<close> is not among the sources. The
  spec's table renders a string value as double-quoted with internal double quotes and
  backslashes escaped: each of the two characters gets a backslash in front, every
  other byte is kept. The quotes around the value are the writer's own.
\<close>

definition EscapeStringField :: "bytes \<Rightarrow> bytes" where
  "EscapeStringField s =
     concat (map (\<lambda>c. if c = CHR 0x22 \<or> c = CHR 0x5C then [CHR 0x5C, c] else [c]) s)"

text \<open>
  \<open>models.AppendMakeKey\<close>, \<open>escape.Bytes\<close> and \<open>strconv.AppendFloat\<close> (with its
  \<open>float64\<close> argument) are parameters of the model: the record \<open>env\<close> holds the three
  functions, and \<open>'f\<close> stands for \<open>float64\<close>. A tag set \<open>models.Tags\<close> is a list of
  key and value pairs.
\<close>

type_synonym Tags = "(bytes \<times> bytes) list"

record 'f env =
  AppendMakeKey :: "bytes \<Rightarrow> bytes \<Rightarrow> Tags \<Rightarrow> bytes"
  escape_Bytes :: "bytes \<Rightarrow> bytes"
  AppendFloat :: "bytes \<Rightarrow> 'f \<Rightarrow> bytes"

subsection \<open>The writer\<close>

text \<open>
  \<open>Mode\<close> is a Go \<open>bool\<close> with the two named constants \<open>Series = false\<close> and
  \<open>Values = true\<close>. The fields of \<open>Writer\<close> are named after the receiver: \<open>w_err\<close>
  is \<open>w.err\<close>. \<open>w_key\<close> is the slice \<open>w.key\<close>; the typed write methods work on a
  local slice \<open>buf\<close> that starts as \<open>w.key[:0]\<close> and never assign \<open>w.key\<close>.
\<close>

datatype Mode = Series | Values

record Writer =
  w_w :: bufio_Writer
  w_key :: bytes
  w_err :: "error option"
  w_m :: Mode

text \<open>The argument of \<open>NewWriter\<close> is a \<open>*bufio.Writer\<close> already, or any other writer.\<close>

datatype io_arg = Buffered_Writer bufio_Writer | Other_Writer io_Writer

definition NewWriter :: "io_arg \<Rightarrow> Mode \<Rightarrow> Writer" where
  "NewWriter w mode =
     (let wr = (case w of Buffered_Writer b \<Rightarrow> b | Other_Writer u \<Rightarrow> bufio_NewWriter u)
      in \<lparr>w_w = wr, w_key = replicate 1024 (CHR 0x00), w_err = None, w_m = mode\<rparr>)"

definition NewBucket :: "Writer \<Rightarrow> 64 word \<Rightarrow> 64 word \<Rightarrow> Writer \<times> error option" where
  "NewBucket w start end' = (w, None)"

definition Close :: "Writer \<Rightarrow> error option \<times> Writer" where
  "Close w = (case Flush (w_w w) of (e, b) \<Rightarrow> (e, w\<lparr>w_w := b\<rparr>))"

definition Err :: "Writer \<Rightarrow> error option" where
  "Err w = w_err w"

text \<open>
  \<open>BeginSeries\<close> drops the results of \<open>w.w.Write\<close> and \<open>w.w.WriteByte\<close>. The data
  type \<open>typ\<close> is not used.
\<close>

definition BeginSeries :: "'f env \<Rightarrow> bytes \<Rightarrow> bytes \<Rightarrow> nat \<Rightarrow> Tags \<Rightarrow> Writer \<Rightarrow> Writer" where
  "BeginSeries env name field typ tags w =
     (if w_err w \<noteq> None then w
      else if w_m w = Series then
        (let w = w\<lparr>w_key := AppendMakeKey env (take 0 (w_key w)) name tags\<rparr>;
             w = w\<lparr>w_key := w_key w @ '' ''\<rparr>;
             w = w\<lparr>w_key := w_key w @ escape_Bytes env field\<rparr>;
             w = w\<lparr>w_w := snd (snd (bufio_Write (w_key w) (w_w w)))\<rparr>;
             w = w\<lparr>w_w := snd (bufio_WriteByte (CHR 0x0A) (w_w w))\<rparr>
         in w)
      else w)"

definition EndSeries :: "Writer \<Rightarrow> Writer" where
  "EndSeries w = w"

subsection \<open>Array cursors\<close>

text \<open>
  Modelled from the spec: the array and cursor types of package \<open>tsdb\<close> are not
  among the sources. A batch (\<open>tsdb.IntegerArray\<close> and its four siblings) exposes
  its length and the parallel sequences \<open>Timestamps\<close> and \<open>Values\<close>; \<open>Len\<close> is the
  number of timestamps. A cursor is forward-only and single-pass: it is modelled by
  the batches its coming \<open>Next\<close> calls return, and once these are used up it returns
  the batch of length zero. \<open>Next\<close> returns the batch and the advanced cursor. Every
  cursor of the model comes to an end, so the loop that drains it terminates.
\<close>

record 'v Array =
  a_Timestamps :: "64 word list"
  a_Values :: "'v list"

definition Len :: "'v Array \<Rightarrow> nat" where
  "Len a = length (a_Timestamps a)"

type_synonym 'v cursor = "'v Array list"

definition Next :: "'v cursor \<Rightarrow> 'v Array \<times> 'v cursor" where
  "Next cur =
     (case cur of
        [] \<Rightarrow> (\<lparr>a_Timestamps = [], a_Values = []\<rparr>, [])
      | a # rest \<Rightarrow> (a, rest))"

subsection \<open>The typed write methods\<close>

text \<open>
  The five methods have the same body up to the rendering of a line, which is the
  parameter \<open>line\<close> of the two loops. The inner loop ranges over the indices of
  \<open>a.Timestamps\<close> and reads \<open>a.Values[i]\<close>: when the values run out first the index is
  out of range and the program panics. It ends with \<open>Continue\<close> after the last index,
  with \<open>Return\<close> at the \<open>return\<close> after a failed write, or with \<open>Panic\<close>.
\<close>

datatype ctl = Continue | Return | Panic

datatype outcome = Returned | Panicked

fun write_points :: "('v \<Rightarrow> 64 word \<Rightarrow> bytes) \<Rightarrow> 64 word list \<Rightarrow> 'v list \<Rightarrow> Writer \<Rightarrow> ctl \<times> Writer" where
  "write_points line [] vs w = (Continue, w)"
| "write_points line (t # ts) [] w = (Panic, w)"
| "write_points line (t # ts) (v # vs) w =
     (case bufio_Write (line v t) (w_w w) of (n, e, b) \<Rightarrow>
        let w = w\<lparr>w_w := b, w_err := e\<rparr> in
        if w_err w \<noteq> None then (Return, w) else write_points line ts vs w)"

lemma Next_shorter: "Next cur = (a, cur') \<Longrightarrow> Len a \<noteq> 0 \<Longrightarrow> length cur' < length cur"
  by (auto simp: Next_def Len_def split: list.splits)

function drain :: "('v \<Rightarrow> 64 word \<Rightarrow> bytes) \<Rightarrow> Writer \<Rightarrow> 'v cursor \<Rightarrow> outcome \<times> Writer \<times> 'v cursor" where
  "drain line w cur =
     (case Next cur of (a, cur) \<Rightarrow>
        if Len a = 0 then (Returned, w, cur)
        else (case write_points line (a_Timestamps a) (a_Values a) w of
                (Continue, w) \<Rightarrow> drain line w cur
              | (Return, w) \<Rightarrow> (Returned, w, cur)
              | (Panic, w) \<Rightarrow> (Panicked, w, cur)))"
  by pat_completeness auto
termination
  by (relation "measure (\<lambda>(line, w, cur). length cur)") (auto dest: Next_shorter [OF sym])

declare drain.simps [simp del]

definition integer_line :: "64 word \<Rightarrow> 64 word \<Rightarrow> bytes" where
  "integer_line v t =
     (let buf = [];
          buf = AppendInt buf v;
          buf = buf @ ''i'';
          buf = buf @ '' '';
          buf = AppendInt buf t;
          buf = buf @ [CHR 0x0A]
      in buf)"

definition float_line :: "'f env \<Rightarrow> 'f \<Rightarrow> 64 word \<Rightarrow> bytes" where
  "float_line env v t =
     (let buf = [];
          buf = AppendFloat env buf v;
          buf = buf @ '' '';
          buf = AppendInt buf t;
          buf = buf @ [CHR 0x0A]
      in buf)"

definition unsigned_line :: "64 word \<Rightarrow> 64 word \<Rightarrow> bytes" where
  "unsigned_line v t =
     (let buf = [];
          buf = AppendUint buf v;
          buf = buf @ ''u'';
          buf = buf @ '' '';
          buf = AppendInt buf t;
          buf = buf @ [CHR 0x0A]
      in buf)"

definition boolean_line :: "bool \<Rightarrow> 64 word \<Rightarrow> bytes" where
  "boolean_line v t =
     (let buf = [];
          buf = AppendBool buf v;
          buf = buf @ '' '';
          buf = AppendInt buf t;
          buf = buf @ [CHR 0x0A]
      in buf)"

definition string_line :: "bytes \<Rightarrow> 64 word \<Rightarrow> bytes" where
  "string_line v t =
     (let buf = [];
          buf = buf @ [CHR 0x22];
          buf = buf @ EscapeStringField v;
          buf = buf @ [CHR 0x22];
          buf = buf @ '' '';
          buf = AppendInt buf t;
          buf = buf @ [CHR 0x0A]
      in buf)"

definition WriteIntegerCursor :: "Writer \<Rightarrow> 64 word cursor \<Rightarrow> outcome \<times> Writer \<times> 64 word cursor" where
  "WriteIntegerCursor w cur =
     (if w_err w \<noteq> None \<or> w_m w = Series then (Returned, w, cur)
      else drain integer_line w cur)"

definition WriteFloatCursor :: "'f env \<Rightarrow> Writer \<Rightarrow> 'f cursor \<Rightarrow> outcome \<times> Writer \<times> 'f cursor" where
  "WriteFloatCursor env w cur =
     (if w_err w \<noteq> None \<or> w_m w = Series then (Returned, w, cur)
      else drain (float_line env) w cur)"

definition WriteUnsignedCursor :: "Writer \<Rightarrow> 64 word cursor \<Rightarrow> outcome \<times> Writer \<times> 64 word cursor" where
  "WriteUnsignedCursor w cur =
     (if w_err w \<noteq> None \<or> w_m w = Series then (Returned, w, cur)
      else drain unsigned_line w cur)"

definition WriteBooleanCursor :: "Writer \<Rightarrow> bool cursor \<Rightarrow> outcome \<times> Writer \<times> bool cursor" where
  "WriteBooleanCursor w cur =
     (if w_err w \<noteq> None \<or> w_m w = Series then (Returned, w, cur)
      else drain boolean_line w cur)"

definition WriteStringCursor :: "Writer \<Rightarrow> bytes cursor \<Rightarrow> outcome \<times> Writer \<times> bytes cursor" where
  "WriteStringCursor w cur =
     (if w_err w \<noteq> None \<or> w_m w = Series then (Returned, w, cur)
      else drain string_line w cur)"

subsection \<open>Sequences of calls on one writer\<close>

text \<open>
  A driver calls the methods of one writer one after the other. \<open>run\<close> threads the
  writer through a list of calls and stops at a panic.
\<close>

datatype 'f call =
    Call_NewBucket "64 word" "64 word"
  | Call_BeginSeries bytes bytes nat Tags
  | Call_EndSeries
  | Call_WriteInteger "64 word cursor"
  | Call_WriteFloat "'f cursor"
  | Call_WriteUnsigned "64 word cursor"
  | Call_WriteBoolean "bool cursor"
  | Call_WriteString "bytes cursor"

fun invoke :: "'f env \<Rightarrow> 'f call \<Rightarrow> Writer \<Rightarrow> outcome \<times> Writer" where
  "invoke env (Call_NewBucket start end') w = (Returned, fst (NewBucket w start end'))"
| "invoke env (Call_BeginSeries name field typ tags) w =
     (Returned, BeginSeries env name field typ tags w)"
| "invoke env Call_EndSeries w = (Returned, EndSeries w)"
| "invoke env (Call_WriteInteger cur) w =
     (case WriteIntegerCursor w cur of (oc, w, cur) \<Rightarrow> (oc, w))"
| "invoke env (Call_WriteFloat cur) w =
     (case WriteFloatCursor env w cur of (oc, w, cur) \<Rightarrow> (oc, w))"
| "invoke env (Call_WriteUnsigned cur) w =
     (case WriteUnsignedCursor w cur of (oc, w, cur) \<Rightarrow> (oc, w))"
| "invoke env (Call_WriteBoolean cur) w =
     (case WriteBooleanCursor w cur of (oc, w, cur) \<Rightarrow> (oc, w))"
| "invoke env (Call_WriteString cur) w =
     (case WriteStringCursor w cur of (oc, w, cur) \<Rightarrow> (oc, w))"

fun run :: "'f env \<Rightarrow> 'f call list \<Rightarrow> Writer \<Rightarrow> outcome \<times> Writer" where
  "run env [] w = (Returned, w)"
| "run env (c # cs) w =
     (case invoke env c w of
        (Returned, w) \<Rightarrow> run env cs w
      | (Panicked, w) \<Rightarrow> (Panicked, w))"

fun is_BeginSeries :: "'f call \<Rightarrow> bool" where
  "is_BeginSeries (Call_BeginSeries name field typ tags) = True"
| "is_BeginSeries c = False"

fun is_Write :: "'f call \<Rightarrow> bool" where
  "is_Write (Call_NewBucket start end') = False"
| "is_Write (Call_BeginSeries name field typ tags) = False"
| "is_Write Call_EndSeries = False"
| "is_Write c = True"

text \<open>
  The bytes a sink has taken, in order: those handed on to the destination, then those
  still in the buffer.
\<close>

definition emitted :: "bufio_Writer \<Rightarrow> bytes" where
  "emitted b = out (b_wr b) @ b_buf b"

text \<open>
  An environment for evaluating examples: the key is the name followed by
  \<open>,key=value\<close> for each tag, with nothing escaped (right for names without comma, space
  or equals sign), and a natural number in decimal stands for a float value.
\<close>

definition example_env :: "nat env" where
  "example_env =
     \<lparr>AppendMakeKey = (\<lambda>dst name tags.
         dst @ name @ concat (map (\<lambda>(k, v). '','' @ k @ ''='' @ v) tags)),
      escape_Bytes = (\<lambda>s. s),
      AppendFloat = (\<lambda>dst v. dst @ formatBits v)\<rparr>"

text \<open>A destination that accepts everything and one whose first \<open>Write\<close> fails.\<close>

definition accepting :: io_Writer where
  "accepting = \<lparr>out = [], replies = []\<rparr>"

definition failing :: io_Writer where
  "failing = \<lparr>out = [], replies = [Fail 0 (ErrIO 1)]\<rparr>"

text \<open>A \<open>bufio.Writer\<close> of four bytes, as \<open>bufio.NewWriterSize(u, 4)\<close> makes it.\<close>

definition small_sink :: "io_Writer \<Rightarrow> bufio_Writer" where
  "small_sink u = \<lparr>b_err = None, b_buf = [], b_size = 4, b_wr = u\<rparr>"

subsection \<open>The bytes a run of calls should give\<close>

text \<open>
  A sink accepts when it has no pending error and its destination takes every write.
\<close>

definition accepts :: "bufio_Writer \<Rightarrow> bool" where
  "accepts b \<longleftrightarrow> b_err b = None \<and> replies (b_wr b) = []"

text \<open>
  What the spec asks of a typed write, as a function of the cursor alone: one line for
  every pair, batch after batch in arrival order, until a batch of length zero. A
  batch with fewer values than timestamps ends in a panic after the lines of the pairs
  it has.
\<close>

definition batch_lines :: "('v \<Rightarrow> 64 word \<Rightarrow> bytes) \<Rightarrow> 'v Array \<Rightarrow> bytes" where
  "batch_lines line a = concat (map (\<lambda>(v, t). line v t) (zip (a_Values a) (a_Timestamps a)))"

fun spec_cursor :: "('v \<Rightarrow> 64 word \<Rightarrow> bytes) \<Rightarrow> 'v cursor \<Rightarrow> outcome \<times> bytes" where
  "spec_cursor line [] = (Returned, [])"
| "spec_cursor line (a # rest) =
     (if Len a = 0 then (Returned, [])
      else if length (a_Values a) < length (a_Timestamps a) then (Panicked, batch_lines line a)
      else (case spec_cursor line rest of (oc, bs) \<Rightarrow> (oc, batch_lines line a @ bs)))"

text \<open>
  The same for a call and for a sequence of calls, as a function of the mode: a key
  line for \<open>BeginSeries\<close> in Series mode, the lines of the cursor for a typed write in
  Values mode, nothing otherwise.
\<close>

fun spec_call :: "'f env \<Rightarrow> Mode \<Rightarrow> 'f call \<Rightarrow> outcome \<times> bytes" where
  "spec_call env m (Call_NewBucket start end') = (Returned, [])"
| "spec_call env m (Call_BeginSeries name field typ tags) =
     (Returned,
      if m = Series
      then AppendMakeKey env [] name tags @ '' '' @ escape_Bytes env field @ [CHR 0x0A]
      else [])"
| "spec_call env m Call_EndSeries = (Returned, [])"
| "spec_call env m (Call_WriteInteger cur) =
     (if m = Series then (Returned, []) else spec_cursor integer_line cur)"
| "spec_call env m (Call_WriteFloat cur) =
     (if m = Series then (Returned, []) else spec_cursor (float_line env) cur)"
| "spec_call env m (Call_WriteUnsigned cur) =
     (if m = Series then (Returned, []) else spec_cursor unsigned_line cur)"
| "spec_call env m (Call_WriteBoolean cur) =
     (if m = Series then (Returned, []) else spec_cursor boolean_line cur)"
| "spec_call env m (Call_WriteString cur) =
     (if m = Series then (Returned, []) else spec_cursor string_line cur)"

fun spec_run :: "'f env \<Rightarrow> Mode \<Rightarrow> 'f call list \<Rightarrow> outcome \<times> bytes" where
  "spec_run env m [] = (Returned, [])"
| "spec_run env m (c # cs) =
     (case spec_call env m c of
        (Returned, bs) \<Rightarrow> (case spec_run env m cs of (oc, bs') \<Rightarrow> (oc, bs @ bs'))
      | (Panicked, bs) \<Rightarrow> (Panicked, bs))"

text \<open>
  The pairs of a cursor in arrival order, up to the first batch of length zero.
\<close>

definition points :: "'v cursor \<Rightarrow> ('v \<times> 64 word) list" where
  "points cur =
     concat (map (\<lambda>a. zip (a_Values a) (a_Timestamps a)) (takeWhile (\<lambda>a. Len a \<noteq> 0) cur))"

text \<open>
  Base-10 notation of a signed integer: a minus sign for a negative number, then the
  decimal digits of the magnitude. \<open>decimal_value\<close> reads digits back.
\<close>

definition signed_decimal :: "int \<Rightarrow> bytes" where
  "signed_decimal k = (if k < 0 then ''-'' @ formatBits (nat (- k)) else formatBits (nat k))"

definition decimal_value :: "bytes \<Rightarrow> nat" where
  "decimal_value s = foldl (\<lambda>n c. 10 * n + (of_char c - 48)) 0 s"

section \<open>Properties\<close>

subsection \<open>The loops\<close>

lemma drain_end_of_stream:
  "Len (fst (Next cur)) = 0 \<Longrightarrow> drain line w cur = (Returned, w, snd (Next cur))"
  by (subst drain.simps) (cases "Next cur", simp)

lemma drain_Nil: "drain line w [] = (Returned, w, [])"
  by (subst drain.simps) (simp add: Next_def Len_def)

lemma drain_Cons:
  "drain line w (a # rest) =
     (if Len a = 0 then (Returned, w, rest)
      else (case write_points line (a_Timestamps a) (a_Values a) w of
              (Continue, w) \<Rightarrow> drain line w rest
            | (Return, w) \<Rightarrow> (Returned, w, rest)
            | (Panic, w) \<Rightarrow> (Panicked, w, rest)))"
  by (subst drain.simps) (simp add: Next_def)

lemma write_points_w_m: "w_m (snd (write_points line ts vs w)) = w_m w"
  by (induction line ts vs w rule: write_points.induct) (auto split: prod.splits simp: Let_def)

lemma drain_w_m: "w_m (fst (snd (drain line w cur))) = w_m w"
proof (induction line w cur rule: drain.induct)
  case (1 line w cur)
  obtain a cur' where n: "Next cur = (a, cur')"
    by (cases "Next cur") auto
  show ?case
  proof (cases "Len a = 0")
    case True
    with n show ?thesis by (subst drain.simps) simp
  next
    case False
    obtain c w' where p: "write_points line (a_Timestamps a) (a_Values a) w = (c, w')"
      by (cases "write_points line (a_Timestamps a) (a_Values a) w") auto
    have m: "w_m w' = w_m w"
      using write_points_w_m [of line "a_Timestamps a" "a_Values a" w] p by simp
    show ?thesis
    proof (cases c)
      case Continue
      with "1.IH" [OF n [symmetric] False p [symmetric]] n False p m show ?thesis
        by (subst drain.simps) simp
    next
      case Return
      with n False p m show ?thesis by (subst drain.simps) simp
    next
      case Panic
      with n False p m show ?thesis by (subst drain.simps) simp
    qed
  qed
qed

lemma BeginSeries_w_err: "w_err (BeginSeries env name field typ tags w) = w_err w"
  by (simp add: BeginSeries_def Let_def)

lemma BeginSeries_w_m: "w_m (BeginSeries env name field typ tags w) = w_m w"
  by (simp add: BeginSeries_def Let_def)

lemma BeginSeries_Values: "w_m w = Values \<Longrightarrow> BeginSeries env name field typ tags w = w"
  by (simp add: BeginSeries_def)

lemma BeginSeries_latched: "w_err w \<noteq> None \<Longrightarrow> BeginSeries env name field typ tags w = w"
  by (simp add: BeginSeries_def)

lemmas Write_defs =
  WriteIntegerCursor_def WriteFloatCursor_def WriteUnsignedCursor_def
  WriteBooleanCursor_def WriteStringCursor_def

lemma invoke_Write_noop:
  "w_err w \<noteq> None \<or> w_m w = Series \<Longrightarrow> is_Write c \<Longrightarrow> invoke env c w = (Returned, w)"
  by (cases c) (auto simp: Write_defs)

lemma invoke_latched: "w_err w \<noteq> None \<Longrightarrow> invoke env c w = (Returned, w)"
  by (cases c) (auto simp: Write_defs BeginSeries_latched NewBucket_def EndSeries_def)

lemma run_latched: "w_err w \<noteq> None \<Longrightarrow> run env cs w = (Returned, w)"
  by (induction cs) (auto simp: invoke_latched)

lemma invoke_w_m: "w_m (snd (invoke env c w)) = w_m w"
proof (cases c)
  case (Call_WriteInteger cur)
  then show ?thesis
    using drain_w_m [of integer_line w cur]
    by (auto simp: Write_defs split: prod.splits)
next
  case (Call_WriteFloat cur)
  then show ?thesis
    using drain_w_m [of "float_line env" w cur]
    by (auto simp: Write_defs split: prod.splits)
next
  case (Call_WriteUnsigned cur)
  then show ?thesis
    using drain_w_m [of unsigned_line w cur]
    by (auto simp: Write_defs split: prod.splits)
next
  case (Call_WriteBoolean cur)
  then show ?thesis
    using drain_w_m [of boolean_line w cur]
    by (auto simp: Write_defs split: prod.splits)
next
  case (Call_WriteString cur)
  then show ?thesis
    using drain_w_m [of string_line w cur]
    by (auto simp: Write_defs split: prod.splits)
qed (simp_all add: NewBucket_def EndSeries_def BeginSeries_w_m)

lemma run_w_m: "w_m (snd (run env cs w)) = w_m w"
proof (induction cs arbitrary: w)
  case Nil
  show ?case by simp
next
  case (Cons c cs)
  obtain oc w' where i: "invoke env c w = (oc, w')"
    by (cases "invoke env c w") auto
  with invoke_w_m [of env c w] have "w_m w' = w_m w" by simp
  with i Cons.IH [of w'] show ?case by (cases oc) simp_all
qed

lemma run_Writes_noop:
  "w_err w \<noteq> None \<or> w_m w = Series \<Longrightarrow> list_all is_Write cs \<Longrightarrow>
   run env cs w = (Returned, w)"
  by (induction cs) (auto simp: invoke_Write_noop)

subsection \<open>Writers over a sink that accepts\<close>

lemma io_Write_accepting:
  "replies u = [] \<Longrightarrow> io_Write p u = (length p, None, u\<lparr>out := out u @ p\<rparr>)"
  by (simp add: io_Write_def)

lemma Flush_accepts:
  assumes "accepts b"
  shows "fst (Flush b) = None \<and> accepts (snd (Flush b)) \<and> b_buf (snd (Flush b)) = [] \<and>
         out (b_wr (snd (Flush b))) = emitted b \<and> b_size (snd (Flush b)) = b_size b"
  using assms
  by (auto simp: Flush_def accepts_def emitted_def Buffered_def io_Write_accepting Let_def)

lemma Write_step_accepts:
  assumes "accepts b" and "Write_step p b nn = (p', b', nn')"
  shows "accepts b' \<and> emitted b' @ p' = emitted b @ p \<and> nn' + length p' = nn + length p"
proof (cases "Buffered b = 0")
  case True
  with assms show ?thesis
    by (auto simp: Write_step_def accepts_def emitted_def Buffered_def io_Write_accepting)
next
  case False
  define b1 where "b1 = b\<lparr>b_buf := b_buf b @ take (min (Available b) (length p)) p\<rparr>"
  have a1: "accepts b1" using assms(1) by (simp add: b1_def accepts_def)
  from False assms(2) have b': "b' = snd (Flush b1)"
    and p': "p' = drop (min (Available b) (length p)) p"
    and nn': "nn' = nn + min (Available b) (length p)"
    by (auto simp: Write_step_def Let_def b1_def)
  from Flush_accepts [OF a1] have "accepts b'" and "emitted b' = emitted b1"
    by (simp_all add: b' emitted_def)
  moreover have "emitted b1 @ p' = emitted b @ p"
    by (simp add: b1_def p' emitted_def)
  ultimately show ?thesis using nn' p' by auto
qed

lemma Write_loop_accepts:
  "accepts b \<Longrightarrow> Write_loop p b nn = (p', b', nn') \<Longrightarrow>
   accepts b' \<and> emitted b' @ p' = emitted b @ p \<and> nn' + length p' = nn + length p \<and>
   length p' \<le> Available b'"
proof (induction p b nn rule: Write_loop.induct)
  case (1 p b nn)
  show ?case
  proof (cases "Write_more p b")
    case True
    obtain p1 b1 nn1 where s: "Write_step p b nn = (p1, b1, nn1)"
      by (cases "Write_step p b nn") auto
    from Write_step_accepts [OF "1.prems"(1) s]
    have a: "accepts b1" and e: "emitted b1 @ p1 = emitted b @ p"
      and n: "nn1 + length p1 = nn + length p" by simp_all
    from "1.prems"(2) True s have "Write_loop p1 b1 nn1 = (p', b', nn')"
      by (subst (asm) Write_loop.simps) simp
    from "1.IH" [OF True s [symmetric] refl a this] e n show ?thesis by simp
  next
    case False
    with "1.prems" have "p' = p" "b' = b" "nn' = nn"
      by (subst (asm) Write_loop.simps, simp)+
    with False "1.prems"(1) show ?thesis
      by (auto simp: Write_more_def accepts_def)
  qed
qed

lemma bufio_Write_accepts:
  assumes "accepts b"
  shows "fst (bufio_Write p b) = length p \<and> fst (snd (bufio_Write p b)) = None \<and>
         accepts (snd (snd (bufio_Write p b))) \<and>
         emitted (snd (snd (bufio_Write p b))) = emitted b @ p"
proof -
  obtain p' b' nn' where l: "Write_loop p b 0 = (p', b', nn')"
    by (cases "Write_loop p b 0") auto
  from Write_loop_accepts [OF assms l]
  have "accepts b'" "emitted b' @ p' = emitted b @ p" "nn' + length p' = length p"
    "length p' \<le> Available b'" by simp_all
  then show ?thesis
    by (auto simp: bufio_Write_def l accepts_def emitted_def Let_def min_def)
qed

lemma bufio_WriteByte_accepts:
  assumes "accepts b"
  shows "fst (bufio_WriteByte c b) = None \<and> accepts (snd (bufio_WriteByte c b)) \<and>
         emitted (snd (bufio_WriteByte c b)) = emitted b @ [c]"
proof (cases "Available b \<le> 0")
  case True
  obtain e b1 where f: "Flush b = (e, b1)" by (cases "Flush b") auto
  with Flush_accepts [OF assms] have "e = None" "accepts b1" "b_buf b1 = []" "out (b_wr b1) = emitted b"
    by simp_all
  with True assms f show ?thesis
    by (auto simp: bufio_WriteByte_def accepts_def emitted_def)
next
  case False
  with assms show ?thesis
    by (auto simp: bufio_WriteByte_def accepts_def emitted_def)
qed

lemma write_points_accepts:
  "accepts (w_w w) \<Longrightarrow> w_err w = None \<Longrightarrow>
   fst (write_points line ts vs w) = (if length vs < length ts then Panic else Continue) \<and>
   accepts (w_w (snd (write_points line ts vs w))) \<and>
   w_err (snd (write_points line ts vs w)) = None \<and>
   emitted (w_w (snd (write_points line ts vs w))) =
     emitted (w_w w) @ concat (map (\<lambda>(v, t). line v t) (zip vs ts))"
proof (induction line ts vs w rule: write_points.induct)
  case (1 line vs w)
  then show ?case by simp
next
  case (2 line t ts w)
  then show ?case by simp
next
  case (3 line t ts v vs w)
  obtain n e b where wr: "bufio_Write (line v t) (w_w w) = (n, e, b)"
    by (cases "bufio_Write (line v t) (w_w w)") auto
  with bufio_Write_accepts [OF "3.prems"(1), of "line v t"]
  have e: "e = None" and b: "accepts b" and em: "emitted b = emitted (w_w w) @ line v t"
    by simp_all
  let ?w = "w\<lparr>w_w := b, w_err := e\<rparr>"
  have "accepts (w_w ?w)" and "w_err ?w = None" using e b by simp_all
  from "3.IH" [OF wr [symmetric] refl refl _ this] e
  have "fst (write_points line ts vs ?w) = (if length vs < length ts then Panic else Continue) \<and>
    accepts (w_w (snd (write_points line ts vs ?w))) \<and>
    w_err (snd (write_points line ts vs ?w)) = None \<and>
    emitted (w_w (snd (write_points line ts vs ?w))) =
      emitted (w_w ?w) @ concat (map (\<lambda>(v, t). line v t) (zip vs ts))"
    by simp
  with wr e em show ?case by (simp add: Let_def)
qed

lemma drain_accepts:
  "accepts (w_w w) \<Longrightarrow> w_err w = None \<Longrightarrow>
   fst (drain line w cur) = fst (spec_cursor line cur) \<and>
   accepts (w_w (fst (snd (drain line w cur)))) \<and>
   w_err (fst (snd (drain line w cur))) = None \<and>
   emitted (w_w (fst (snd (drain line w cur)))) = emitted (w_w w) @ snd (spec_cursor line cur)"
proof (induction cur arbitrary: w)
  case Nil
  then show ?case by (simp add: drain_Nil)
next
  case (Cons a rest)
  show ?case
  proof (cases "Len a = 0")
    case True
    with Cons.prems show ?thesis by (simp add: drain_Cons)
  next
    case False
    obtain c w' where p: "write_points line (a_Timestamps a) (a_Values a) w = (c, w')"
      by (cases "write_points line (a_Timestamps a) (a_Values a) w") auto
    with write_points_accepts [OF Cons.prems, of line "a_Timestamps a" "a_Values a"]
    have c: "c = (if length (a_Values a) < length (a_Timestamps a) then Panic else Continue)"
      and a': "accepts (w_w w')" and e': "w_err w' = None"
      and em: "emitted (w_w w') = emitted (w_w w) @ batch_lines line a"
      by (simp_all add: batch_lines_def)
    show ?thesis
    proof (cases "length (a_Values a) < length (a_Timestamps a)")
      case True
      with c have "drain line w (a # rest) = (Panicked, w', rest)"
        using False p by (simp add: drain_Cons)
      with True a' e' em False show ?thesis by simp
    next
      case short: False
      with c have "drain line w (a # rest) = drain line w' rest"
        using False p by (simp add: drain_Cons)
      with Cons.IH [OF a' e'] em False short show ?thesis
        by (simp split: prod.splits)
    qed
  qed
qed

lemma spec_cursor_well_formed:
  "\<forall>a\<in>set (takeWhile (\<lambda>a. Len a \<noteq> 0) cur).
      length (a_Timestamps a) \<le> length (a_Values a) \<Longrightarrow>
   spec_cursor line cur = (Returned, concat (map (\<lambda>(v, t). line v t) (points cur)))"
  by (induction cur) (auto simp: points_def batch_lines_def)

lemma drain_lines:
  assumes "accepts (w_w w)" and "w_err w = None"
    and "\<forall>a\<in>set (takeWhile (\<lambda>a. Len a \<noteq> 0) cur).
      length (a_Timestamps a) \<le> length (a_Values a)"
  shows "fst (drain line w cur) = Returned \<and>
         w_err (fst (snd (drain line w cur))) = None \<and>
         emitted (w_w (fst (snd (drain line w cur)))) =
           emitted (w_w w) @ concat (map (\<lambda>(v, t). line v t) (points cur))"
  using drain_accepts [OF assms(1,2), of line cur] spec_cursor_well_formed [OF assms(3), of line]
  by simp


lemma bufio_Write_error:
  "bufio_Write p b = (n, Some e, b') \<Longrightarrow> b_err b' = Some e"
  by (auto simp: bufio_Write_def Let_def split: prod.splits if_splits)

lemma invoke_not_Write:
  "\<not> is_Write c \<Longrightarrow> fst (invoke env c w) = Returned"
  by (cases c) simp_all

lemma run_Series_filter:
  "w_m w = Series \<Longrightarrow> run env cs w = run env (filter (\<lambda>c. \<not> is_Write c) cs) w"
proof (induction cs arbitrary: w)
  case Nil
  show ?case by simp
next
  case (Cons c cs)
  show ?case
  proof (cases "is_Write c")
    case True
    with Cons.prems have "invoke env c w = (Returned, w)"
      by (simp add: invoke_Write_noop)
    with True Cons.IH [OF Cons.prems] show ?thesis by simp
  next
    case False
    obtain oc w' where i: "invoke env c w = (oc, w')"
      by (cases "invoke env c w") auto
    with invoke_w_m [of env c w] Cons.prems have "w_m w' = Series" by simp
    from Cons.IH [OF this] i False show ?thesis by (cases oc) simp_all
  qed
qed

lemma run_Values_filter:
  "w_m w = Values \<Longrightarrow> run env cs w = run env (filter (\<lambda>c. \<not> is_BeginSeries c) cs) w"
proof (induction cs arbitrary: w)
  case Nil
  show ?case by simp
next
  case (Cons c cs)
  show ?case
  proof (cases "is_BeginSeries c")
    case True
    then obtain name field ty tags where "c = Call_BeginSeries name field ty tags"
      by (cases c) simp_all
    with Cons.prems have "invoke env c w = (Returned, w)"
      by (simp add: BeginSeries_Values)
    with True Cons.IH [OF Cons.prems] show ?thesis by simp
  next
    case False
    obtain oc w' where i: "invoke env c w = (oc, w')"
      by (cases "invoke env c w") auto
    with invoke_w_m [of env c w] Cons.prems have "w_m w' = Values" by simp
    from Cons.IH [OF this] i False show ?thesis by (cases oc) simp_all
  qed
qed

lemma BeginSeries_accepts:
  assumes "accepts (w_w w)" and "w_err w = None"
  shows "accepts (w_w (BeginSeries env name field typ tags w)) \<and>
         emitted (w_w (BeginSeries env name field typ tags w)) =
           emitted (w_w w) @ snd (spec_call env (w_m w) (Call_BeginSeries name field typ tags))"
proof (cases "w_m w")
  case Series
  define k where "k = AppendMakeKey env [] name tags @ '' '' @ escape_Bytes env field"
  define b1 where "b1 = snd (snd (bufio_Write k (w_w w)))"
  from bufio_Write_accepts [OF assms(1), of k]
  have a1: "accepts b1" and e1: "emitted b1 = emitted (w_w w) @ k"
    by (simp_all add: b1_def)
  from bufio_WriteByte_accepts [OF a1, of "CHR 0x0A"] e1
  have "accepts (snd (bufio_WriteByte (CHR 0x0A) b1)) \<and>
      emitted (snd (bufio_WriteByte (CHR 0x0A) b1)) = emitted (w_w w) @ k @ [CHR 0x0A]"
    by simp
  moreover have "w_w (BeginSeries env name field typ tags w) = snd (bufio_WriteByte (CHR 0x0A) b1)"
    using Series assms(2) by (simp add: BeginSeries_def Let_def b1_def k_def)
  ultimately show ?thesis using Series by (simp add: k_def)
next
  case Values
  with assms show ?thesis by (simp add: BeginSeries_Values)
qed

lemma Write_accepts:
  assumes "accepts (w_w w)" and "w_err w = None"
  shows "fst (if w_m w = Series then (Returned, w, cur) else drain line w cur) =
           fst (if w_m w = Series then (Returned, []) else spec_cursor line cur) \<and>
         accepts (w_w (fst (snd (if w_m w = Series then (Returned, w, cur)
           else drain line w cur)))) \<and>
         w_err (fst (snd (if w_m w = Series then (Returned, w, cur)
           else drain line w cur))) = None \<and>
         emitted (w_w (fst (snd (if w_m w = Series then (Returned, w, cur)
           else drain line w cur)))) =
           emitted (w_w w) @ snd (if w_m w = Series then (Returned, []) else spec_cursor line cur)"
  using assms drain_accepts [OF assms, of line cur] by simp

lemma invoke_accepts:
  assumes "accepts (w_w w)" and "w_err w = None"
  shows "fst (invoke env c w) = fst (spec_call env (w_m w) c) \<and>
         accepts (w_w (snd (invoke env c w))) \<and>
         w_err (snd (invoke env c w)) = None \<and>
         emitted (w_w (snd (invoke env c w))) = emitted (w_w w) @ snd (spec_call env (w_m w) c)"
proof (cases c)
  case (Call_NewBucket start end')
  with assms show ?thesis by (simp add: NewBucket_def)
next
  case (Call_BeginSeries name field ty tags)
  with assms BeginSeries_accepts [OF assms, of env name field ty tags] show ?thesis
    by (simp add: BeginSeries_w_err)
next
  case Call_EndSeries
  with assms show ?thesis by (simp add: EndSeries_def)
next
  case (Call_WriteInteger cur)
  with Write_accepts [OF assms, of cur integer_line] show ?thesis
    using assms(2) by (simp add: WriteIntegerCursor_def case_prod_beta)
next
  case (Call_WriteFloat cur)
  with Write_accepts [OF assms, of cur "float_line env"] show ?thesis
    using assms(2) by (simp add: WriteFloatCursor_def case_prod_beta)
next
  case (Call_WriteUnsigned cur)
  with Write_accepts [OF assms, of cur unsigned_line] show ?thesis
    using assms(2) by (simp add: WriteUnsignedCursor_def case_prod_beta)
next
  case (Call_WriteBoolean cur)
  with Write_accepts [OF assms, of cur boolean_line] show ?thesis
    using assms(2) by (simp add: WriteBooleanCursor_def case_prod_beta)
next
  case (Call_WriteString cur)
  with Write_accepts [OF assms, of cur string_line] show ?thesis
    using assms(2) by (simp add: WriteStringCursor_def case_prod_beta)
qed

lemma run_accepts:
  "accepts (w_w w) \<Longrightarrow> w_err w = None \<Longrightarrow>
   fst (run env cs w) = fst (spec_run env (w_m w) cs) \<and>
   accepts (w_w (snd (run env cs w))) \<and>
   w_err (snd (run env cs w)) = None \<and>
   emitted (w_w (snd (run env cs w))) = emitted (w_w w) @ snd (spec_run env (w_m w) cs)"
proof (induction cs arbitrary: w)
  case Nil
  then show ?case by simp
next
  case (Cons c cs)
  obtain oc w' where i: "invoke env c w = (oc, w')"
    by (cases "invoke env c w") auto
  obtain oc' bs where s: "spec_call env (w_m w) c = (oc', bs)"
    by (cases "spec_call env (w_m w) c") auto
  from invoke_accepts [OF Cons.prems, of env c] i s
  have oc: "oc = oc'" and a: "accepts (w_w w')" and e: "w_err w' = None"
    and em: "emitted (w_w w') = emitted (w_w w) @ bs"
    by simp_all
  from invoke_w_m [of env c w] i have m: "w_m w' = w_m w" by simp
  show ?case
  proof (cases oc)
    case Returned
    with Cons.IH [OF a e] i s oc em m show ?thesis
      by (simp split: prod.splits)
  next
    case Panicked
    with i s oc a e em show ?thesis by simp
  qed
qed

lemma Close_accepts:
  "accepts (w_w w) \<Longrightarrow> fst (Close w) = None \<and> out (b_wr (w_w (snd (Close w)))) = emitted (w_w w)"
  using Flush_accepts [of "w_w w"] by (cases "Flush (w_w w)") (simp add: Close_def)

subsection \<open>Decimal notation\<close>

lemma formatBits_value: "decimal_value (formatBits n) = n"
proof (induction n rule: formatBits.induct)
  case (1 u)
  show ?case
  proof (cases "u < 10")
    case True
    then show ?thesis
      by (subst formatBits.simps) (simp add: decimal_value_def digit_def)
  next
    case False
    with 1 have "decimal_value (formatBits (u div 10)) = u div 10" by simp
    with False show ?thesis
      by (subst formatBits.simps) (simp add: decimal_value_def digit_def)
  qed
qed

lemma unat_of_sint:
  fixes i :: "64 word"
  assumes "0 \<le> k" and "k < 2 ^ 64" and "word_of_int k = i"
  shows "unat i = nat k"
proof -
  have "uint i = k mod 2 ^ 64"
    using assms(3) by (auto simp: uint_word_of_int)
  with assms(1,2) show ?thesis by (simp add: unat_eq_nat_uint)
qed

lemma unat_nonneg: "\<not> i <s 0 \<Longrightarrow> unat (i :: 64 word) = nat (sint i)"
proof -
  assume "\<not> i <s 0"
  then have "0 \<le> sint i" by (simp add: word_sless_alt)
  moreover have "sint i < 2 ^ 64" using sint_lt [of i] by simp
  ultimately show ?thesis by (intro unat_of_sint) simp_all
qed

lemma unat_neg: "i <s 0 \<Longrightarrow> unat (- (i :: 64 word)) = nat (- sint i)"
proof -
  assume "i <s 0"
  then have "0 \<le> - sint i" by (simp add: word_sless_alt)
  moreover have "- sint i < 2 ^ 64" using sint_ge [of i] by simp
  moreover have "word_of_int (- sint i) = - i" by simp
  ultimately show ?thesis by (rule unat_of_sint)
qed

lemma AppendInt_signed: "AppendInt dst i = dst @ signed_decimal (sint i)"
  by (simp add: AppendInt_def signed_decimal_def unat_nonneg unat_neg word_sless_alt)

subsection \<open>BeginSeries and the latch\<close>

text \<open>
  C1. In Series mode a failed write of the key line in \<open>BeginSeries\<close> should set the
  latch, so that \<open>Err()\<close> returns the write error. The method drops the results of
  both writes. Evaluated on a writer in Series mode over a sink of four bytes whose
  destination fails: after \<open>BeginSeries\<close> for the series \<open>cpu\<close> and the field
  \<open>value\<close> the sink holds the error of the failed write and \<open>Err()\<close> is still
  \<open>nil\<close>.
\<close>

theorem BeginSeries_failed_write_not_latched:
  "(let w = BeginSeries example_env ''cpu'' ''value'' 0 []
              (NewWriter (Buffered_Writer (small_sink failing)) Series)
    in b_err (w_w w) = Some (ErrIO 1) \<and> Err w = None)"
  by code_simp

subsection \<open>Typed writes that do nothing\<close>

text \<open>
  C4. When the latch is set or the mode is Series, each of the five typed write
  methods returns at once: the writer is unchanged and the cursor is handed back as
  it was, so \<open>Next\<close> was not called. Hence \<open>BeginSeries\<close> followed by any sequence
  of typed writes leaves the writer, and with it the sink, as \<open>BeginSeries\<close> alone
  does.
\<close>

theorem typed_write_noop:
  assumes "w_err w \<noteq> None \<or> w_m w = Series" and "list_all is_Write cs"
  shows "WriteIntegerCursor w ci = (Returned, w, ci) \<and>
         WriteFloatCursor env w cf = (Returned, w, cf) \<and>
         WriteUnsignedCursor w cu = (Returned, w, cu) \<and>
         WriteBooleanCursor w cb = (Returned, w, cb) \<and>
         WriteStringCursor w cstr = (Returned, w, cstr) \<and>
         run env (Call_BeginSeries name field typ tags # cs) w =
           run env [Call_BeginSeries name field typ tags] w"
proof -
  let ?w = "BeginSeries env name field typ tags w"
  from assms(1) have "w_err ?w \<noteq> None \<or> w_m ?w = Series"
    by (simp add: BeginSeries_w_err BeginSeries_w_m)
  then have "run env cs ?w = (Returned, ?w)"
    using assms(2) by (rule run_Writes_noop)
  with assms(1) show ?thesis
    by (auto simp: Write_defs)
qed

theorem typed_write_noop_witness:
  "WriteIntegerCursor (NewWriter (Other_Writer accepting) Series)
     [\<lparr>a_Timestamps = [10], a_Values = [100]\<rparr>] =
     (Returned, NewWriter (Other_Writer accepting) Series,
      [\<lparr>a_Timestamps = [10], a_Values = [100]\<rparr>]) \<and>
   WriteFloatCursor example_env (NewWriter (Other_Writer accepting) Series)
     [\<lparr>a_Timestamps = [5], a_Values = [15]\<rparr>] =
     (Returned, NewWriter (Other_Writer accepting) Series,
      [\<lparr>a_Timestamps = [5], a_Values = [15]\<rparr>]) \<and>
   WriteUnsignedCursor (NewWriter (Other_Writer accepting) Series)
     [\<lparr>a_Timestamps = [1], a_Values = [2]\<rparr>] =
     (Returned, NewWriter (Other_Writer accepting) Series,
      [\<lparr>a_Timestamps = [1], a_Values = [2]\<rparr>]) \<and>
   WriteBooleanCursor (NewWriter (Other_Writer accepting) Series)
     [\<lparr>a_Timestamps = [3], a_Values = [True]\<rparr>] =
     (Returned, NewWriter (Other_Writer accepting) Series,
      [\<lparr>a_Timestamps = [3], a_Values = [True]\<rparr>]) \<and>
   WriteStringCursor (NewWriter (Other_Writer accepting) Series)
     [\<lparr>a_Timestamps = [7], a_Values = [''ab'']\<rparr>] =
     (Returned, NewWriter (Other_Writer accepting) Series,
      [\<lparr>a_Timestamps = [7], a_Values = [''ab'']\<rparr>]) \<and>
   run example_env
     (Call_BeginSeries ''cpu'' ''value'' 0 [] #
      [Call_WriteInteger [\<lparr>a_Timestamps = [10], a_Values = [100]\<rparr>],
       Call_WriteString [\<lparr>a_Timestamps = [7], a_Values = [''ab'']\<rparr>]])
     (NewWriter (Other_Writer accepting) Series) =
   run example_env [Call_BeginSeries ''cpu'' ''value'' 0 []]
     (NewWriter (Other_Writer accepting) Series)"
proof -
  have mode: "w_err (NewWriter (Other_Writer accepting) Series) \<noteq> None \<or>
      w_m (NewWriter (Other_Writer accepting) Series) = Series"
    by (simp add: NewWriter_def)
  have writes: "list_all is_Write
      [Call_WriteInteger [\<lparr>a_Timestamps = [10], a_Values = [100]\<rparr>],
       Call_WriteString [\<lparr>a_Timestamps = [7], a_Values = [''ab'']\<rparr>] :: nat call]"
    by simp
  show ?thesis
    by (rule typed_write_noop [OF mode writes])
qed

subsection \<open>The lines of a cursor\<close>

text \<open>
  C3. In Values mode with the latch unset, over a sink that accepts,
  \<open>WriteIntegerCursor\<close> returns with the latch still unset, and the sink has taken,
  after what it held before, one line for every pair of the cursor in arrival order:
  the value in base 10 with its sign, \<open>i\<close>, a space, the timestamp in base 10 with its
  sign, and a newline. The batches are those up to the first of length zero, each with
  a value for every timestamp. (\<open>formatBits_value\<close>: the digits read back give the
  magnitude.)
\<close>

theorem WriteIntegerCursor_lines:
  assumes "w_m w = Values" and "w_err w = None" and "accepts (w_w w)"
    and "\<forall>a\<in>set (takeWhile (\<lambda>a. Len a \<noteq> 0) cur).
      length (a_Timestamps a) \<le> length (a_Values a)"
  shows "fst (WriteIntegerCursor w cur) = Returned \<and>
         Err (fst (snd (WriteIntegerCursor w cur))) = None \<and>
         emitted (w_w (fst (snd (WriteIntegerCursor w cur)))) =
           emitted (w_w w) @
           concat (map (\<lambda>(v, t).
               signed_decimal (sint v) @ ''i'' @ '' '' @ signed_decimal (sint t) @ [CHR 0x0A])
             (points cur))"
proof -
  have "integer_line =
      (\<lambda>v t. signed_decimal (sint v) @ ''i'' @ '' '' @ signed_decimal (sint t) @ [CHR 0x0A])"
    by (simp add: integer_line_def fun_eq_iff AppendInt_signed)
  with drain_lines [OF assms(3,2,4), of integer_line] assms(1,2) show ?thesis
    by (simp add: WriteIntegerCursor_def Err_def)
qed

theorem WriteIntegerCursor_lines_witness:
  "fst (WriteIntegerCursor (NewWriter (Other_Writer accepting) Values)
     [\<lparr>a_Timestamps = [10, 20], a_Values = [100, 200]\<rparr>]) = Returned \<and>
   Err (fst (snd (WriteIntegerCursor (NewWriter (Other_Writer accepting) Values)
     [\<lparr>a_Timestamps = [10, 20], a_Values = [100, 200]\<rparr>]))) = None \<and>
   emitted (w_w (fst (snd (WriteIntegerCursor (NewWriter (Other_Writer accepting) Values)
     [\<lparr>a_Timestamps = [10, 20], a_Values = [100, 200]\<rparr>])))) =
     ''100i 10'' @ [CHR 0x0A] @ ''200i 20'' @ [CHR 0x0A]"
proof -
  have mode: "w_m (NewWriter (Other_Writer accepting) Values) = Values"
    and latch: "w_err (NewWriter (Other_Writer accepting) Values) = None"
    and sink: "accepts (w_w (NewWriter (Other_Writer accepting) Values))"
    by (simp_all add: NewWriter_def accepts_def bufio_NewWriter_def accepting_def)
  have batches: "\<forall>a\<in>set (takeWhile (\<lambda>a. Len a \<noteq> 0)
        [\<lparr>a_Timestamps = [10, 20], a_Values = [100, 200 :: 64 word]\<rparr>]).
      length (a_Timestamps a) \<le> length (a_Values a)"
    by (simp add: Len_def)
  have lines: "emitted (w_w (NewWriter (Other_Writer accepting) Values)) @
      concat (map (\<lambda>(v, t).
          signed_decimal (sint v) @ ''i'' @ '' '' @ signed_decimal (sint t) @ [CHR 0x0A])
        (points [\<lparr>a_Timestamps = [10, 20], a_Values = [100, 200 :: 64 word]\<rparr>])) =
      ''100i 10'' @ [CHR 0x0A] @ ''200i 20'' @ [CHR 0x0A]"
    by code_simp
  show ?thesis
    using WriteIntegerCursor_lines [OF mode latch sink batches] by (simp only: lines)
qed

text \<open>
  C7. In Values mode with the latch unset, over a sink that accepts,
  \<open>WriteStringCursor\<close> returns with the latch still unset, and the sink has taken one
  line for every pair of the cursor in arrival order: a double quote, the value with a
  backslash in front of every double quote and backslash, a double quote, a space, the
  timestamp in base 10, and a newline.
\<close>

theorem WriteStringCursor_lines:
  assumes "w_m w = Values" and "w_err w = None" and "accepts (w_w w)"
    and "\<forall>a\<in>set (takeWhile (\<lambda>a. Len a \<noteq> 0) cur).
      length (a_Timestamps a) \<le> length (a_Values a)"
  shows "fst (WriteStringCursor w cur) = Returned \<and>
         Err (fst (snd (WriteStringCursor w cur))) = None \<and>
         emitted (w_w (fst (snd (WriteStringCursor w cur)))) =
           emitted (w_w w) @
           concat (map (\<lambda>(v, t).
               [CHR 0x22] @ EscapeStringField v @ [CHR 0x22] @ '' '' @
               signed_decimal (sint t) @ [CHR 0x0A])
             (points cur))"
proof -
  have "string_line =
      (\<lambda>v t. [CHR 0x22] @ EscapeStringField v @ [CHR 0x22] @ '' '' @
         signed_decimal (sint t) @ [CHR 0x0A])"
    by (simp add: string_line_def fun_eq_iff AppendInt_signed)
  with drain_lines [OF assms(3,2,4), of string_line] assms(1,2) show ?thesis
    by (simp add: WriteStringCursor_def Err_def)
qed

theorem WriteStringCursor_lines_witness:
  "fst (WriteStringCursor (NewWriter (Other_Writer accepting) Values)
     [\<lparr>a_Timestamps = [7], a_Values = [[CHR ''a'', CHR 0x22, CHR ''b'']]\<rparr>]) = Returned \<and>
   Err (fst (snd (WriteStringCursor (NewWriter (Other_Writer accepting) Values)
     [\<lparr>a_Timestamps = [7], a_Values = [[CHR ''a'', CHR 0x22, CHR ''b'']]\<rparr>]))) = None \<and>
   emitted (w_w (fst (snd (WriteStringCursor (NewWriter (Other_Writer accepting) Values)
     [\<lparr>a_Timestamps = [7], a_Values = [[CHR ''a'', CHR 0x22, CHR ''b'']]\<rparr>])))) =
     [CHR 0x22, CHR ''a'', CHR 0x5C, CHR 0x22, CHR ''b'', CHR 0x22, CHR '' '', CHR ''7'',
      CHR 0x0A]"
proof -
  have mode: "w_m (NewWriter (Other_Writer accepting) Values) = Values"
    and latch: "w_err (NewWriter (Other_Writer accepting) Values) = None"
    and sink: "accepts (w_w (NewWriter (Other_Writer accepting) Values))"
    by (simp_all add: NewWriter_def accepts_def bufio_NewWriter_def accepting_def)
  have batches: "\<forall>a\<in>set (takeWhile (\<lambda>a. Len a \<noteq> 0)
        [\<lparr>a_Timestamps = [7 :: 64 word], a_Values = [[CHR ''a'', CHR 0x22, CHR ''b'']]\<rparr>]).
      length (a_Timestamps a) \<le> length (a_Values a)"
    by (simp add: Len_def)
  have lines: "emitted (w_w (NewWriter (Other_Writer accepting) Values)) @
      concat (map (\<lambda>(v, t).
          [CHR 0x22] @ EscapeStringField v @ [CHR 0x22] @ '' '' @
          signed_decimal (sint t) @ [CHR 0x0A])
        (points [\<lparr>a_Timestamps = [7 :: 64 word],
                  a_Values = [[CHR ''a'', CHR 0x22, CHR ''b'']]\<rparr>])) =
      [CHR 0x22, CHR ''a'', CHR 0x5C, CHR 0x22, CHR ''b'', CHR 0x22, CHR '' '', CHR ''7'',
       CHR 0x0A]"
    by code_simp
  show ?thesis
    using WriteStringCursor_lines [OF mode latch sink batches] by (simp only: lines)
qed

subsection \<open>End of stream\<close>

text \<open>
  C5. In Values mode with the latch unset, a typed write on a cursor whose first
  \<open>Next\<close> returns a batch of length zero ends at once: the writer is unchanged, so no
  byte reached the sink and \<open>Err()\<close> is still \<open>nil\<close>, and the cursor has been
  advanced by that one \<open>Next\<close>.
\<close>

theorem empty_cursor_writes_nothing:
  assumes "w_m w = Values" and "w_err w = None"
    and "Len (fst (Next ci)) = 0" and "Len (fst (Next cf)) = 0"
    and "Len (fst (Next cu)) = 0" and "Len (fst (Next cb)) = 0"
    and "Len (fst (Next cstr)) = 0"
  shows "WriteIntegerCursor w ci = (Returned, w, snd (Next ci)) \<and>
         WriteFloatCursor env w cf = (Returned, w, snd (Next cf)) \<and>
         WriteUnsignedCursor w cu = (Returned, w, snd (Next cu)) \<and>
         WriteBooleanCursor w cb = (Returned, w, snd (Next cb)) \<and>
         WriteStringCursor w cstr = (Returned, w, snd (Next cstr)) \<and>
         Err w = None"
  using assms by (simp add: Write_defs drain_end_of_stream Err_def)

theorem empty_cursor_writes_nothing_witness:
  "WriteIntegerCursor (NewWriter (Other_Writer accepting) Values) [] =
     (Returned, NewWriter (Other_Writer accepting) Values, snd (Next [])) \<and>
   WriteFloatCursor example_env (NewWriter (Other_Writer accepting) Values)
     [\<lparr>a_Timestamps = [], a_Values = []\<rparr>, \<lparr>a_Timestamps = [5], a_Values = [15]\<rparr>] =
     (Returned, NewWriter (Other_Writer accepting) Values,
      snd (Next [\<lparr>a_Timestamps = [], a_Values = []\<rparr>,
                 \<lparr>a_Timestamps = [5], a_Values = [15]\<rparr>])) \<and>
   WriteUnsignedCursor (NewWriter (Other_Writer accepting) Values) [] =
     (Returned, NewWriter (Other_Writer accepting) Values, snd (Next [])) \<and>
   WriteBooleanCursor (NewWriter (Other_Writer accepting) Values)
     [\<lparr>a_Timestamps = [], a_Values = [True]\<rparr>] =
     (Returned, NewWriter (Other_Writer accepting) Values,
      snd (Next [\<lparr>a_Timestamps = [], a_Values = [True]\<rparr>])) \<and>
   WriteStringCursor (NewWriter (Other_Writer accepting) Values) [] =
     (Returned, NewWriter (Other_Writer accepting) Values, snd (Next [])) \<and>
   Err (NewWriter (Other_Writer accepting) Values) = None"
proof -
  have mode: "w_m (NewWriter (Other_Writer accepting) Values) = Values"
    and latch: "w_err (NewWriter (Other_Writer accepting) Values) = None"
    by (simp_all add: NewWriter_def)
  have i: "Len (fst (Next ([] :: 64 word cursor))) = 0"
    and f: "Len (fst (Next [\<lparr>a_Timestamps = [], a_Values = []\<rparr>,
        \<lparr>a_Timestamps = [5], a_Values = [15::nat]\<rparr>])) = 0"
    and b: "Len (fst (Next [\<lparr>a_Timestamps = [], a_Values = [True]\<rparr>])) = 0"
    and s: "Len (fst (Next ([] :: bytes cursor))) = 0"
    by (simp_all add: Next_def Len_def)
  show ?thesis
    by (rule empty_cursor_writes_nothing [OF mode latch i f i b s])
qed

subsection \<open>After the latch is set\<close>



subsection \<open>The mode\<close>

text \<open>
  C8. The mode is the one given to \<open>NewWriter\<close> and no call changes it. A writer in
  Series mode ends every sequence of calls as it ends the sequence without the typed
  writes, so no point line is written; a writer in Values mode ends it as it ends the
  sequence without the \<open>BeginSeries\<close> calls, so no key line is written.
\<close>

theorem mode_is_fixed:
  "w_m (NewWriter a mode) = mode \<and>
   w_m (snd (run env cs w)) = w_m w \<and>
   w_m (snd (Close w)) = w_m w \<and>
   (w_m w = Series \<longrightarrow> run env cs w = run env (filter (\<lambda>c. \<not> is_Write c) cs) w) \<and>
   (w_m w = Values \<longrightarrow> run env cs w = run env (filter (\<lambda>c. \<not> is_BeginSeries c) cs) w)"
  by (simp add: run_w_m run_Series_filter [symmetric] run_Values_filter [symmetric]
      NewWriter_def Close_def split: prod.splits)


theorem mode_is_fixed_witness:
  "w_m (NewWriter (Other_Writer accepting) Series) = Series \<and>
   w_m (snd (run example_env
     [Call_BeginSeries ''cpu'' ''value'' 0 [],
      Call_WriteInteger [\<lparr>a_Timestamps = [10], a_Values = [100]\<rparr>], Call_EndSeries]
     (NewWriter (Other_Writer accepting) Series))) = Series \<and>
   w_m (snd (Close (NewWriter (Other_Writer accepting) Series))) = Series \<and>
   run example_env
     [Call_BeginSeries ''cpu'' ''value'' 0 [],
      Call_WriteInteger [\<lparr>a_Timestamps = [10], a_Values = [100]\<rparr>], Call_EndSeries]
     (NewWriter (Other_Writer accepting) Series) =
   run example_env [Call_BeginSeries ''cpu'' ''value'' 0 [], Call_EndSeries]
     (NewWriter (Other_Writer accepting) Series) \<and>
   run example_env
     [Call_BeginSeries ''cpu'' ''value'' 0 [],
      Call_WriteInteger [\<lparr>a_Timestamps = [10], a_Values = [100]\<rparr>], Call_EndSeries]
     (NewWriter (Other_Writer accepting) Values) =
   run example_env
     [Call_WriteInteger [\<lparr>a_Timestamps = [10], a_Values = [100]\<rparr>], Call_EndSeries]
     (NewWriter (Other_Writer accepting) Values)"
proof -
  have series: "w_m (NewWriter (Other_Writer accepting) Series) = Series"
    and vals: "w_m (NewWriter (Other_Writer accepting) Values) = Values"
    by (simp_all add: NewWriter_def)
  have keep_series: "filter (\<lambda>c. \<not> is_Write c)
      [Call_BeginSeries ''cpu'' ''value'' 0 [],
      Call_WriteInteger [\<lparr>a_Timestamps = [10], a_Values = [100]\<rparr>], Call_EndSeries] =
      [Call_BeginSeries ''cpu'' ''value'' 0 [], Call_EndSeries :: nat call]"
    and keep_values: "filter (\<lambda>c. \<not> is_BeginSeries c)
      [Call_BeginSeries ''cpu'' ''value'' 0 [],
      Call_WriteInteger [\<lparr>a_Timestamps = [10], a_Values = [100]\<rparr>], Call_EndSeries] =
      [Call_WriteInteger [\<lparr>a_Timestamps = [10], a_Values = [100]\<rparr>],
       Call_EndSeries :: nat call]"
    by simp_all
  note s = mode_is_fixed [of "Other_Writer accepting" Series example_env
      "[Call_BeginSeries ''cpu'' ''value'' 0 [],
      Call_WriteInteger [\<lparr>a_Timestamps = [10], a_Values = [100]\<rparr>], Call_EndSeries]"
      "NewWriter (Other_Writer accepting) Series", unfolded keep_series series]
  note v = mode_is_fixed [of "Other_Writer accepting" Values example_env
      "[Call_BeginSeries ''cpu'' ''value'' 0 [],
      Call_WriteInteger [\<lparr>a_Timestamps = [10], a_Values = [100]\<rparr>], Call_EndSeries]"
      "NewWriter (Other_Writer accepting) Values", unfolded keep_values vals]
  from s v show ?thesis
    unfolding series by blast
qed

subsection \<open>The output as a function of the calls\<close>

text \<open>
  C9. Two writers in the same mode with the latch unset, over sinks that accept and
  have taken the same bytes so far, give the same outcome and the same bytes for the
  same sequence of calls, in the sink and, after \<open>Close\<close>, in the destination: the
  bytes are those of \<open>spec_run\<close>, a function of the mode and the calls alone. The
  two writers may differ in their scratch buffers and in the size and filling of
  their sinks' buffers.
\<close>

theorem output_determined_by_calls:
  assumes "w_m w1 = w_m w2"
    and "w_err w1 = None" and "w_err w2 = None"
    and "accepts (w_w w1)" and "accepts (w_w w2)"
    and "emitted (w_w w1) = emitted (w_w w2)"
  shows "fst (run env cs w1) = fst (run env cs w2) \<and>
         emitted (w_w (snd (run env cs w1))) = emitted (w_w (snd (run env cs w2))) \<and>
         out (b_wr (w_w (snd (Close (snd (run env cs w1)))))) =
           out (b_wr (w_w (snd (Close (snd (run env cs w2)))))) \<and>
         emitted (w_w (snd (run env cs w1))) =
           emitted (w_w w1) @ snd (spec_run env (w_m w1) cs)"
proof -
  note r1 = run_accepts [OF assms(4,2), of env cs]
  note r2 = run_accepts [OF assms(5,3), of env cs]
  from r1 have c1: "out (b_wr (w_w (snd (Close (snd (run env cs w1)))))) =
      emitted (w_w (snd (run env cs w1)))"
    by (simp add: Close_accepts)
  from r2 have c2: "out (b_wr (w_w (snd (Close (snd (run env cs w2)))))) =
      emitted (w_w (snd (run env cs w2)))"
    by (simp add: Close_accepts)
  from r1 r2 assms(1,6) c1 c2 show ?thesis by simp
qed


theorem output_determined_by_calls_witness:
  "fst (run example_env
     [Call_BeginSeries ''cpu'' ''value'' 0 [],
      Call_WriteInteger [\<lparr>a_Timestamps = [10, 20], a_Values = [100, 200]\<rparr>],
      Call_EndSeries]
     (NewWriter (Other_Writer accepting) Values)) =
   fst (run example_env
     [Call_BeginSeries ''cpu'' ''value'' 0 [],
      Call_WriteInteger [\<lparr>a_Timestamps = [10, 20], a_Values = [100, 200]\<rparr>],
      Call_EndSeries]
     (NewWriter (Buffered_Writer (small_sink accepting)) Values)) \<and>
   emitted (w_w (snd (run example_env
     [Call_BeginSeries ''cpu'' ''value'' 0 [],
      Call_WriteInteger [\<lparr>a_Timestamps = [10, 20], a_Values = [100, 200]\<rparr>],
      Call_EndSeries]
     (NewWriter (Other_Writer accepting) Values)))) =
   emitted (w_w (snd (run example_env
     [Call_BeginSeries ''cpu'' ''value'' 0 [],
      Call_WriteInteger [\<lparr>a_Timestamps = [10, 20], a_Values = [100, 200]\<rparr>],
      Call_EndSeries]
     (NewWriter (Buffered_Writer (small_sink accepting)) Values)))) \<and>
   out (b_wr (w_w (snd (Close (snd (run example_env
     [Call_BeginSeries ''cpu'' ''value'' 0 [],
      Call_WriteInteger [\<lparr>a_Timestamps = [10, 20], a_Values = [100, 200]\<rparr>],
      Call_EndSeries]
     (NewWriter (Other_Writer accepting) Values))))))) =
   out (b_wr (w_w (snd (Close (snd (run example_env
     [Call_BeginSeries ''cpu'' ''value'' 0 [],
      Call_WriteInteger [\<lparr>a_Timestamps = [10, 20], a_Values = [100, 200]\<rparr>],
      Call_EndSeries]
     (NewWriter (Buffered_Writer (small_sink accepting)) Values))))))) \<and>
   emitted (w_w (snd (run example_env
     [Call_BeginSeries ''cpu'' ''value'' 0 [],
      Call_WriteInteger [\<lparr>a_Timestamps = [10, 20], a_Values = [100, 200]\<rparr>],
      Call_EndSeries]
     (NewWriter (Other_Writer accepting) Values)))) =
   ''100i 10'' @ [CHR 0x0A] @ ''200i 20'' @ [CHR 0x0A]"
proof -
  have mode: "w_m (NewWriter (Other_Writer accepting) Values) =
      w_m (NewWriter (Buffered_Writer (small_sink accepting)) Values)"
    and latch1: "w_err (NewWriter (Other_Writer accepting) Values) = None"
    and latch2: "w_err (NewWriter (Buffered_Writer (small_sink accepting)) Values) = None"
    and sink1: "accepts (w_w (NewWriter (Other_Writer accepting) Values))"
    and sink2: "accepts (w_w (NewWriter (Buffered_Writer (small_sink accepting)) Values))"
    and same: "emitted (w_w (NewWriter (Other_Writer accepting) Values)) =
      emitted (w_w (NewWriter (Buffered_Writer (small_sink accepting)) Values))"
    by (simp_all add: NewWriter_def accepts_def bufio_NewWriter_def accepting_def
        small_sink_def emitted_def)
  have lines: "emitted (w_w (NewWriter (Other_Writer accepting) Values)) @
      snd (spec_run example_env (w_m (NewWriter (Other_Writer accepting) Values))
        [Call_BeginSeries ''cpu'' ''value'' 0 [],
      Call_WriteInteger [\<lparr>a_Timestamps = [10, 20], a_Values = [100, 200]\<rparr>],
      Call_EndSeries]) =
      ''100i 10'' @ [CHR 0x0A] @ ''200i 20'' @ [CHR 0x0A]"
    by code_simp
  show ?thesis
    by (rule output_determined_by_calls [OF mode latch1 latch2 sink1 sink2 same, of example_env
      "[Call_BeginSeries ''cpu'' ''value'' 0 [],
      Call_WriteInteger [\<lparr>a_Timestamps = [10, 20], a_Values = [100, 200]\<rparr>],
      Call_EndSeries]", unfolded lines])
qed

subsection \<open>Close, Err and EndSeries\<close>

text \<open>
  C6. \<open>Close\<close> flushes the sink and returns what \<open>Flush\<close> returns: the result does
  not depend on the latch, and \<open>Close\<close> leaves the latch as it is. \<open>Err\<close> returns the
  latch, and a latch that is set stays the same through every later call, so it holds
  the first error that was latched.
\<close>

theorem Close_returns_flush_result:
  "Close w = (fst (Flush (w_w w)), w\<lparr>w_w := snd (Flush (w_w w))\<rparr>) \<and>
   fst (Close (w\<lparr>w_err := e\<rparr>)) = fst (Close w) \<and>
   w_err (snd (Close w)) = w_err w \<and>
   Err w = w_err w \<and>
   (w_err w \<noteq> None \<longrightarrow> Err (snd (run env cs w)) = w_err w)"
  by (simp add: Close_def Err_def run_latched split: prod.splits)

theorem Close_returns_flush_result_witness:
  "Close (NewWriter (Other_Writer accepting) Values\<lparr>w_err := Some (ErrIO 9)\<rparr>) =
     (None, NewWriter (Other_Writer accepting) Values\<lparr>w_err := Some (ErrIO 9)\<rparr>) \<and>
   Err (NewWriter (Other_Writer accepting) Values\<lparr>w_err := Some (ErrIO 9)\<rparr>) =
     Some (ErrIO 9) \<and>
   Err (snd (run example_env
     [Call_BeginSeries ''cpu'' ''value'' 0 [],
      Call_WriteInteger [\<lparr>a_Timestamps = [10], a_Values = [100]\<rparr>]]
     (NewWriter (Other_Writer accepting) Values\<lparr>w_err := Some (ErrIO 9)\<rparr>))) =
     Some (ErrIO 9)"
  using Close_returns_flush_result
    [of "NewWriter (Other_Writer accepting) Values\<lparr>w_err := Some (ErrIO 9)\<rparr>" None
      example_env
      "[Call_BeginSeries ''cpu'' ''value'' 0 [],
        Call_WriteInteger [\<lparr>a_Timestamps = [10], a_Values = [100]\<rparr>]]"]
  by (simp add: NewWriter_def bufio_NewWriter_def accepting_def Flush_def Buffered_def)

text \<open>
  C10. \<open>EndSeries\<close> does nothing: it returns the writer it was given, with the same
  sink, scratch buffer, latch and mode, and the sink has taken no byte.
\<close>

theorem EndSeries_noop:
  "EndSeries w = w \<and> w_w (EndSeries w) = w_w w \<and> w_key (EndSeries w) = w_key w \<and>
   w_err (EndSeries w) = w_err w \<and> w_m (EndSeries w) = w_m w \<and>
   emitted (w_w (EndSeries w)) = emitted (w_w w)"
  by (simp add: EndSeries_def)

end
